theory Spec2Isabelle
  imports Main
begin

section \<open>JavaScript values\<close>

text \<open>
  The values that flow through the generated repositories: call arguments, fetch results
  and cache entries. An object is the list of its own enumerable string-keyed properties
  in the order in which \<open>Object.values\<close> enumerates them.

  Numbers are the safe integers, those of a magnitude below \<open>2^53\<close>: a double holds
  each of them exactly, and JavaScript prints it in plain decimal notation. Other numbers
  (fractions, larger magnitudes, \<open>NaN\<close>, the infinities) are not values of the model.
\<close>

typedef safe_integer = "{n :: int. - (2 ^ 53) < n \<and> n < 2 ^ 53}"
  by (rule exI [of _ 0]) simp

datatype jsval =
    JUndefined
  | JNull
  | JBool bool
  | JNum safe_integer
  | JStr string
  | JArr "jsval list"
  | JObj "(string \<times> jsval) list"

datatype js_error = TypeError string | Error string

text \<open>Truthiness, as tested by \<open>a ? b : c\<close>, \<open>a || b\<close> and \<open>if (a)\<close>.\<close>

fun truthy :: "jsval \<Rightarrow> bool" where
  "truthy JUndefined = False"
| "truthy JNull = False"
| "truthy (JBool b) = b"
| "truthy (JNum n) = (Rep_safe_integer n \<noteq> 0)"
| "truthy (JStr s) = (s \<noteq> [])"
| "truthy (JArr xs) = True"
| "truthy (JObj ps) = True"

text \<open>\<open>a || b\<close>\<close>

definition js_or :: "jsval \<Rightarrow> jsval \<Rightarrow> jsval" where
  "js_or a b = (if truthy a then a else b)"

text \<open>Decimal digits of a natural number, most significant first.\<close>

fun digits :: "nat \<Rightarrow> string" where
  "digits n =
     (if n < 10 then [''0123456789'' ! n]
      else digits (n div 10) @ [''0123456789'' ! (n mod 10)])"

text \<open>
  \<open>String(v)\<close>, and \<open>xs.join(sep)\<close>: \<open>join\<close> renders an element that is
  \<open>undefined\<close> or \<open>null\<close> as the empty string and every other element by its
  string form; a nested array is joined with a comma.
\<close>

fun to_string :: "jsval \<Rightarrow> string" and join :: "string \<Rightarrow> jsval list \<Rightarrow> string" where
  "to_string JUndefined = ''undefined''"
| "to_string JNull = ''null''"
| "to_string (JBool b) = (if b then ''true'' else ''false'')"
| "to_string (JNum n) =
     (if Rep_safe_integer n < 0 then ''-'' @ digits (nat (- Rep_safe_integer n))
      else digits (nat (Rep_safe_integer n)))"
| "to_string (JStr s) = s"
| "to_string (JArr xs) = join '','' xs"
| "to_string (JObj ps) = ''[object Object]''"
| "join sep [] = []"
| "join sep [x] =
     (case x of JUndefined \<Rightarrow> [] | JNull \<Rightarrow> [] | _ \<Rightarrow> to_string x)"
| "join sep (x # y # ys) =
     (case x of JUndefined \<Rightarrow> [] | JNull \<Rightarrow> [] | _ \<Rightarrow> to_string x)
       @ sep @ join sep (y # ys)"

text \<open>
  \<open>Object.values(v)\<close>: the own enumerable property values. It throws a TypeError on
  \<open>undefined\<close> and \<open>null\<close>; a string yields its characters, an array its elements,
  a number or a boolean nothing.
\<close>

fun object_values :: "jsval \<Rightarrow> js_error + jsval list" where
  "object_values JUndefined = Inl (TypeError ''Cannot convert undefined or null to object'')"
| "object_values JNull = Inl (TypeError ''Cannot convert undefined or null to object'')"
| "object_values (JBool b) = Inr []"
| "object_values (JNum n) = Inr []"
| "object_values (JStr s) = Inr (map (\<lambda>c. JStr [c]) s)"
| "object_values (JArr xs) = Inr xs"
| "object_values (JObj ps) = Inr (map snd ps)"

text \<open>
  The \<open>i\<close>-th parameter of a function called with the argument list \<open>as\<close>: a parameter
  with no argument is \<open>undefined\<close>.
\<close>

definition param :: "jsval list \<Rightarrow> nat \<Rightarrow> jsval" where
  "param as i = (if i < length as then as ! i else JUndefined)"


section \<open>The repository: \<open>createRepository\<close>\<close>

text \<open>
  A key function is called with an argument list and returns a string, or throws.
  \<open>hash\<close> is the default export of the package \<open>object-hash\<close>, which the emitted
  file imports; it is a parameter of the model.
\<close>

type_synonym key_fun = "jsval list \<Rightarrow> js_error + string"

record repository_options =
  toCacheKey :: "key_fun option"

record repository =
  hash :: key_fun
  options :: "repository_options option"

text \<open>
  The state behind one repository.
  \<^item> \<open>cache\<close>: the own properties of the object \<open>cache\<close>, created as \<open>{}\<close>.
  \<^item> \<open>fetched\<close>: the argument list of every call of \<open>fetcher\<close> so far, oldest first;
    the promise returned by call number \<open>n\<close> (from 0) is identified by \<open>n\<close>.
  \<^item> \<open>pending\<close>: the fetches that are not settled yet, each with the \<open>cacheKey\<close> its
    \<open>then\<close> handler closes over.
\<close>

record repo_state =
  cache :: "string \<rightharpoonup> jsval"
  fetched :: "jsval list list"
  pending :: "(nat \<times> string) list"

definition fresh :: repo_state where
  "fresh = \<lparr>cache = Map.empty, fetched = [], pending = []\<rparr>"

text \<open>
  \<open>cache\<close> is a plain object, so a property read that finds no own property continues in
  \<open>Object.prototype\<close>. These are its members (those of the language standard and of its
  annex for web browsers, which Node.js has as well).
\<close>

definition object_prototype_names :: "string list" where
  "object_prototype_names =
     [''constructor'', ''hasOwnProperty'', ''isPrototypeOf'', ''propertyIsEnumerable'',
      ''toLocaleString'', ''toString'', ''valueOf'', ''__proto__'',
      ''__defineGetter__'', ''__defineSetter__'', ''__lookupGetter__'', ''__lookupSetter__'']"

text \<open>
  What a property read yields: a value, or the member of \<open>Object.prototype\<close> of that
  name (a function; for \<open>__proto__\<close> the prototype object itself), which is never
  \<open>undefined\<close>.
\<close>

datatype js_read = Value jsval | Builtin string

text \<open>\<open>cache[cacheKey]\<close>\<close>

definition cache_get :: "(string \<rightharpoonup> jsval) \<Rightarrow> string \<Rightarrow> js_read" where
  "cache_get c k =
     (case c k of
        Some v \<Rightarrow> Value v
      | None \<Rightarrow> if k \<in> set object_prototype_names then Builtin k else Value JUndefined)"

text \<open>\<open>options?.toCacheKey ?? hash\<close>\<close>

definition generateCacheKey :: "repository \<Rightarrow> key_fun" where
  "generateCacheKey r =
     (case options r of
        None \<Rightarrow> hash r
      | Some opts \<Rightarrow> (case toCacheKey opts of None \<Rightarrow> hash r | Some f \<Rightarrow> f))"

text \<open>
  \<open>args ? generateCacheKey(args) : 'default'\<close>, where \<open>args\<close> is the rest parameter
  of \<open>read\<close>: the array of all arguments. The key function receives that array as its
  one argument.
\<close>

definition cacheKey :: "repository \<Rightarrow> jsval list \<Rightarrow> js_error + string" where
  "cacheKey r args =
     (if truthy (JArr args) then generateCacheKey r [JArr args] else Inr ''default'')"

text \<open>
  What a call of \<open>read\<close> does: it returns a value, it throws the promise of the fetch it
  has started (the caller suspends), or it throws the error of the key function.
\<close>

datatype outcome = Returned js_read | Suspended nat | Threw js_error

text \<open>
  \<open>read(...args)\<close>. The fetcher returns a promise (its type says so, and the generated
  fetcher is an \<open>async\<close> function); what the promise settles to is an event of its own,
  below.
\<close>

definition read :: "repository \<Rightarrow> repo_state \<Rightarrow> jsval list \<Rightarrow> outcome \<times> repo_state" where
  "read r s args =
     (case cacheKey r args of
        Inl e \<Rightarrow> (Threw e, s)
      | Inr k \<Rightarrow>
          if cache_get (cache s) k = Value JUndefined
          then (Suspended (length (fetched s)),
                s\<lparr>fetched := fetched s @ [args],
                  pending := pending s @ [(length (fetched s), k)]\<rparr>)
          else (Returned (cache_get (cache s) k), s))"

text \<open>
  The fetch \<open>p\<close> resolves with \<open>v\<close>: its handler \<open>value => (cache[cacheKey] = value)\<close>
  runs. A promise settles once; settling one that is not pending does nothing.
\<close>

definition resolve :: "repo_state \<Rightarrow> nat \<Rightarrow> jsval \<Rightarrow> repo_state" where
  "resolve s p v =
     (case map_of (pending s) p of
        None \<Rightarrow> s
      | Some k \<Rightarrow> s\<lparr>cache := (cache s)(k \<mapsto> v),
                     pending := filter (\<lambda>e. fst e \<noteq> p) (pending s)\<rparr>)"

text \<open>The fetch \<open>p\<close> rejects: \<open>then\<close> was given no rejection handler, nothing runs.\<close>

definition reject :: "repo_state \<Rightarrow> nat \<Rightarrow> repo_state" where
  "reject s p =
     (case map_of (pending s) p of
        None \<Rightarrow> s
      | Some k \<Rightarrow> s\<lparr>pending := filter (\<lambda>e. fst e \<noteq> p) (pending s)\<rparr>)"

text \<open>
  The life of a repository is a sequence of events on one thread: calls of \<open>read\<close> and
  settlements of fetches.
\<close>

datatype event = Read "jsval list" | Resolve nat jsval | Reject nat

fun step :: "repository \<Rightarrow> repo_state \<Rightarrow> event \<Rightarrow> repo_state" where
  "step r s (Read args) = snd (read r s args)"
| "step r s (Resolve p v) = resolve s p v"
| "step r s (Reject p) = reject s p"

definition run :: "repository \<Rightarrow> repo_state \<Rightarrow> event list \<Rightarrow> repo_state" where
  "run r s evs = foldl (step r) s evs"

text \<open>The outcomes of the calls of \<open>read\<close> among the events, in order.\<close>

fun outcomes :: "repository \<Rightarrow> repo_state \<Rightarrow> event list \<Rightarrow> outcome list" where
  "outcomes r s [] = []"
| "outcomes r s (Read args # evs) = fst (read r s args) # outcomes r (step r s (Read args)) evs"
| "outcomes r s (Resolve p v # evs) = outcomes r (step r s (Resolve p v)) evs"
| "outcomes r s (Reject p # evs) = outcomes r (step r s (Reject p)) evs"

text \<open>The fetches for key \<open>k\<close> that are in flight.\<close>

definition in_flight :: "repo_state \<Rightarrow> string \<Rightarrow> bool" where
  "in_flight s k = (k \<in> snd ` set (pending s))"


section \<open>The generated key function\<close>

text \<open>
  The override every generated repository is created with:
  \<open>toCacheKey: (_, variables) => { const { values } = Object; return values(variables || {}).join('-'); }\<close>
\<close>

definition toCacheKey_generated :: key_fun where
  "toCacheKey_generated as =
     (case object_values (js_or (param as 1) (JObj [])) of
        Inl e \<Rightarrow> Inl e
      | Inr vs \<Rightarrow> Inr (join ''-'' vs))"

text \<open>
  The repository \<open>buildOperation\<close> emits:
  \<open>createRepository<...>(async (client, options) => ..., { toCacheKey: ... })\<close>.
\<close>

definition generated_repository :: "key_fun \<Rightarrow> repository" where
  "generated_repository h =
     \<lparr>hash = h, options = Some \<lparr>toCacheKey = Some toCacheKey_generated\<rparr>\<rparr>"

text \<open>A key function that returns the same key whatever it is called with.\<close>

definition constant_key :: "string \<Rightarrow> key_fun" where
  "constant_key k as = Inr k"


text \<open>
  Key functions and repositories of callers, for the examples: a key taken from the first
  argument of \<open>read\<close>, as in \<open>toCacheKey: args => Array.isArray(args) ? String(args[0]) : '?'\<close>,
  and a repository created with it.
\<close>

definition first_argument_key :: key_fun where
  "first_argument_key as =
     (case param as 0 of JArr xs \<Rightarrow> Inr (to_string (param xs 0)) | _ \<Rightarrow> Inr ''?'')"

definition city_repository :: repository where
  "city_repository =
     \<lparr>hash = constant_key ''0000'', options = Some \<lparr>toCacheKey = Some first_argument_key\<rparr>\<rparr>"

text \<open>
  The call of the README: \<open>useGetWeatherSuspenseQuery({ variables: { country: 'au', city: 'melbourne' } })\<close>
  reads with a client and these options (the variables in the order of the claim).
\<close>

definition some_client :: jsval where
  "some_client = JObj []"

definition weather_variables :: jsval where
  "weather_variables = JObj [(''city'', JStr ''melbourne''), (''country'', JStr ''au'')]"

definition weather_options :: jsval where
  "weather_options = JObj [(''variables'', weather_variables)]"


section \<open>Histories\<close>

text \<open>
  The values with which fetches for the key \<open>k\<close> resolve during the events \<open>evs\<close>, started
  in state \<open>s\<close>, in order.
\<close>

fun resolutions :: "repository \<Rightarrow> repo_state \<Rightarrow> string \<Rightarrow> event list \<Rightarrow> jsval list" where
  "resolutions r s k [] = []"
| "resolutions r s k (Read args # evs) = resolutions r (step r s (Read args)) k evs"
| "resolutions r s k (Resolve p v # evs) =
     (if map_of (pending s) p = Some k then [v] else [])
       @ resolutions r (step r s (Resolve p v)) k evs"
| "resolutions r s k (Reject p # evs) = resolutions r (step r s (Reject p)) k evs"

text \<open>The argument lists of the calls of \<open>read\<close> among the events, in order.\<close>

fun reads :: "event list \<Rightarrow> jsval list list" where
  "reads [] = []"
| "reads (Read args # evs) = args # reads evs"
| "reads (Resolve p v # evs) = reads evs"
| "reads (Reject p # evs) = reads evs"

text \<open>The event is not a call of \<open>read\<close>, or one whose arguments derive the key \<open>k\<close>.\<close>

fun reads_key :: "repository \<Rightarrow> string \<Rightarrow> event \<Rightarrow> bool" where
  "reads_key r k (Read args) = (cacheKey r args = Inr k)"
| "reads_key r k (Resolve p v) = True"
| "reads_key r k (Reject p) = True"

text \<open>The key holds a value that \<open>read\<close> returns, and no fetch for it is in flight.\<close>

definition settled :: "repo_state \<Rightarrow> string \<Rightarrow> jsval \<Rightarrow> bool" where
  "settled s k v = (cache s k = Some v \<and> v \<noteq> JUndefined \<and> \<not> in_flight s k)"

text \<open>
  No name of \<open>Object.prototype\<close> is an own property of the cache or the key of a fetch
  in flight.
\<close>

definition own_names :: "repo_state \<Rightarrow> bool" where
  "own_names s =
     list_all (\<lambda>k. cache s k = None \<and> \<not> in_flight s k) object_prototype_names"


section \<open>Output validation: \<open>validate\<close>\<close>

text \<open>
  The options of the plugin's configuration that the code reads as flags. An option that
  is not given is \<open>undefined\<close>.
\<close>

record plugin_config =
  useExternalDocument :: jsval
  disableChecks :: jsval

text \<open>
  \<open>extname\<close> of Node's module \<open>path\<close>, for POSIX paths: the extension of the last portion
  of the path (trailing slashes aside), from its last dot to its end; empty when that
  portion has no dot, when its only dot is its first character, and for \<open>..\<close>.
\<close>

definition last_portion :: "string \<Rightarrow> string" where
  "last_portion path =
     rev (takeWhile (\<lambda>c. c \<noteq> CHR ''/'') (dropWhile (\<lambda>c. c = CHR ''/'') (rev path)))"

definition extname :: "string \<Rightarrow> string" where
  "extname path =
     (let base = last_portion path;
          ext = rev (takeWhile (\<lambda>c. c \<noteq> CHR ''.'') (rev base))
      in if CHR ''.'' \<notin> set base then []
         else if length base = Suc (length ext) then []
         else if base = ''..'' then []
         else CHR ''.'' # ext)"

definition validFileExtensions :: "string list" where
  "validFileExtensions = [''.ts'', ''.tsx'']"

text \<open>
  \<open>validate(schema, documents, config, outputFile)\<close>, an \<open>async\<close> function: its promise
  is fulfilled with \<open>undefined\<close> or rejected with the error. It reads neither the schema
  nor the documents.
\<close>

definition validate :: "plugin_config \<Rightarrow> string \<Rightarrow> js_error + unit" where
  "validate config outputFile =
     (if truthy (disableChecks config) then Inr ()
      else if extname outputFile \<notin> set validFileExtensions
      then Inl (Error ''The output file must be a typescript file ending with either .ts or .tsx'')
      else Inr ())"


section \<open>The generator: \<open>buildOperation\<close>\<close>

definition nl :: string where
  "nl = [CHR 0x0A]"

definition tab :: string where
  "tab = [CHR 0x09]"

definition quote :: string where
  "quote = [CHR 0x27]"

text \<open>The lines of a template literal: joined by line feeds.\<close>

definition text_lines :: "string list \<Rightarrow> string" where
  "text_lines ls = concat (case ls of [] \<Rightarrow> [] | l # rest \<Rightarrow> l # map (\<lambda>x. nl @ x) rest)"

text \<open>\<open>toLowerCase\<close> on one character; operation names are ASCII.\<close>

definition toLowerCase_char :: "char \<Rightarrow> char" where
  "toLowerCase_char c =
     (case map_of (zip ''ABCDEFGHIJKLMNOPQRSTUVWXYZ'' ''abcdefghijklmnopqrstuvwxyz'') c of
        Some l \<Rightarrow> l
      | None \<Rightarrow> c)"

text \<open>\<open>s.replace(/sfx$/, '')\<close>\<close>

definition replace_at_end :: "string \<Rightarrow> string \<Rightarrow> string" where
  "replace_at_end sfx s =
     (if length sfx \<le> length s \<and> drop (length s - length sfx) s = sfx
      then take (length s - length sfx) s
      else s)"

definition lowerCaseFirstLetter :: "string \<Rightarrow> string" where
  "lowerCaseFirstLetter term =
     replace_at_end ''Mutation'' (replace_at_end ''Query''
       (case term of [] \<Rightarrow> [] | c # cs \<Rightarrow> toLowerCase_char c # cs))"

text \<open>
  What the visitor takes from its libraries: \<open>pascalCase\<close> of \<open>change-case-all\<close> and
  \<open>convertName\<close> of the base visitor, which depends on the naming configuration. Both
  are parameters of the model.
\<close>

record naming_options =
  suffix :: string
  useTypesPrefix :: "bool option"
  useTypesSuffix :: "bool option"

record naming =
  pascalCase :: "string \<Rightarrow> string"
  convertName :: "string \<Rightarrow> naming_options \<Rightarrow> string"

text \<open>
  An operation definition of the document: its name, if it has one, and the names of its
  variables.
\<close>

record operation_node =
  node_name :: "string option"
  variableDefinitions :: "string list"

text \<open>The entries \<open>{ name, action, type }\<close> the visitor records.\<close>

record generated_binding =
  name :: string
  action :: string
  options_type :: string

text \<open>The visitor's own fields, \<open>__mutationNames\<close> and \<open>__queryNames\<close>.\<close>

record visitor =
  mutationNames :: "generated_binding list"
  queryNames :: "generated_binding list"

definition new_visitor :: visitor where
  "new_visitor = \<lparr>mutationNames = [], queryNames = []\<rparr>"

definition variablesStringGenerator :: "operation_node \<Rightarrow> nat \<Rightarrow> string" where
  "variablesStringGenerator node spaces =
     foldl (\<lambda>collection item.
         collection @ nl @ ''* '' @ concat (replicate spaces tab) @ item
           @ '': // value for '' @ item)
       [] (variableDefinitions node)"

definition ticks :: string where
  "ticks = ''```''"

definition comment :: "operation_node \<Rightarrow> string \<Rightarrow> string \<Rightarrow> string \<Rightarrow> string" where
  "comment node baseName documentKeyword clientAction = text_lines
     [''/** '',
      ''* use'' @ baseName,
      ''*'',
      ''* Use this hook to execure a '' @ documentKeyword @ '' for use in React suspense.'',
      ''* Please use an error boundary to catch any errors.'',
      ''*'',
      ''* @param options options that will be passed into the query, supported options are listed on: https://www.apollographql.com/docs/react/api/core/#ApolloClient.''
        @ clientAction,
      ''* '',
      ''* @example'',
      ''* '' @ ticks @ ''typescript'',
      ''* const data = use'' @ baseName @ ''('' @
        (if variableDefinitions node = [] then []
         else text_lines
           [''{'',
            ''*       variables: {'' @ variablesStringGenerator node 3,
            ''*       }'',
            ''*   }'']) @ '');'',
      ''* '' @ ticks,
      ''*/'']"

text \<open>
  \<open>buildOperation\<close>: the text it returns, and the visitor with the entry it has recorded.
\<close>

definition buildOperation ::
  "naming \<Rightarrow> visitor \<Rightarrow> operation_node \<Rightarrow> string \<Rightarrow> string \<Rightarrow> string \<Rightarrow> string \<Rightarrow> bool
     \<Rightarrow> string \<times> visitor" where
  "buildOperation env this node documentVariableName operationType operationResultType
       operationVariablesType hasRequiredVars =
     (let nodeName = (case node_name node of Some n \<Rightarrow> n | None \<Rightarrow> []);
          operationName = convertName env nodeName
            \<lparr>suffix = pascalCase env operationType,
             useTypesPrefix = Some False, useTypesSuffix = Some False\<rparr>;
          isMutation = (operationType = ''Mutation'');
          isQuery = (operationType = ''Query'')
      in if isMutation \<and> \<not> isQuery then ([], this)
         else
           let optionsTypeString = (if isMutation then ''MutationOptions'' else ''QueryOptions'');
               clientAction = (if isMutation then ''mutate'' else ''query'');
               documentKeyword = (if isMutation then ''mutation'' else ''query'');
               baseName = convertName env nodeName
                 \<lparr>suffix = ''Suspense'' @ (if isMutation then ''Mutation'' else ''Query''),
                  useTypesPrefix = None, useTypesSuffix = None\<rparr>;
               optionsType = ''Omit<'' @ optionsTypeString @ ''<'' @ operationVariablesType @ '', ''
                 @ operationResultType @ ''>, '' @ quote @ documentKeyword @ quote @ ''>'';
               body = text_lines
                 [[],
                  ''        const '' @ lowerCaseFirstLetter baseName @ '' = createRepository<''
                    @ operationResultType @ '', ApolloSuspenseArgs<'' @ optionsType
                    @ ''>>(async (client: ApolloClient<object>, options: '' @ optionsType
                    @ '') => {'',
                  ''            const { data } = await client.'' @ clientAction @ ''<''
                    @ operationResultType @ '', '' @ operationVariablesType @ ''>({'',
                  ''                '' @ documentKeyword @ '': '' @ documentVariableName @ '','',
                  ''                ...options,'',
                  ''            });'',
                  ''        '',
                  ''            return data;'',
                  ''        }, {'',
                  ''            toCacheKey: (_, variables) => {'',
                  ''                const { values } = Object;'',
                  ''                return values(variables || {}).join('' @ quote @ ''-'' @ quote
                    @ '');'',
                  ''            }'',
                  ''        })'',
                  [],
                  ''        '' @ comment node baseName documentKeyword clientAction,
                  ''        export const use'' @ baseName @ '' = (options: '' @ optionsType
                    @ '') => {'',
                  ''            const client = useApolloClient();'',
                  ''            return '' @ lowerCaseFirstLetter baseName @ ''.read(client, options);'',
                  ''        }''];
               binding = \<lparr>name = operationName, action = clientAction, options_type = optionsType\<rparr>
           in (body,
               if isMutation then this\<lparr>mutationNames := mutationNames this @ [binding]\<rparr>
               else this\<lparr>queryNames := queryNames this @ [binding]\<rparr>))"

text \<open>
  The base visitor calls \<open>buildOperation\<close> once for every operation definition of the
  document, in the order of the document, with these arguments.
\<close>

record operation_call =
  call_node :: operation_node
  call_documentVariableName :: string
  call_operationType :: string
  call_operationResultType :: string
  call_operationVariablesType :: string
  call_hasRequiredVars :: bool

fun buildOperations ::
  "naming \<Rightarrow> visitor \<Rightarrow> operation_call list \<Rightarrow> string list \<times> visitor" where
  "buildOperations env this [] = ([], this)"
| "buildOperations env this (c # cs) =
     (let (out, this1) = buildOperation env this (call_node c) (call_documentVariableName c)
                           (call_operationType c) (call_operationResultType c)
                           (call_operationVariablesType c) (call_hasRequiredVars c);
          (outs, this2) = buildOperations env this1 cs
      in (out # outs, this2))"

text \<open>How often the text \<open>pat\<close> occurs in a text.\<close>

fun starts_with :: "string \<Rightarrow> string \<Rightarrow> bool" where
  "starts_with [] s = True"
| "starts_with (p # ps) [] = False"
| "starts_with (p # ps) (c # cs) = (if p = c then starts_with ps cs else False)"

fun occurrences :: "string \<Rightarrow> string \<Rightarrow> nat" where
  "occurrences pat [] = (if pat = [] then 1 else 0)"
| "occurrences pat (c # cs) = (if starts_with pat (c # cs) then 1 else 0) + occurrences pat cs"

text \<open>
  The naming of the default configuration on names that are in Pascal case already: such a
  name is kept, and the suffix is appended (there is no prefix and no further suffix).
\<close>

definition default_naming :: naming where
  "default_naming = \<lparr>pascalCase = (\<lambda>s. s), convertName = (\<lambda>n opts. n @ suffix opts)\<rparr>"

text \<open>
  A document with the query \<open>GetWeather($city, $country)\<close> and the mutation
  \<open>UpdateCity($city)\<close>, as the base visitor hands them over.
\<close>

definition get_weather :: operation_call where
  "get_weather =
     \<lparr>call_node = \<lparr>node_name = Some ''GetWeather'', variableDefinitions = [''city'', ''country'']\<rparr>,
      call_documentVariableName = ''GetWeatherDocument'', call_operationType = ''Query'',
      call_operationResultType = ''GetWeatherQuery'',
      call_operationVariablesType = ''GetWeatherQueryVariables'', call_hasRequiredVars = True\<rparr>"

definition update_city :: operation_call where
  "update_city =
     \<lparr>call_node = \<lparr>node_name = Some ''UpdateCity'', variableDefinitions = [''city'']\<rparr>,
      call_documentVariableName = ''UpdateCityDocument'', call_operationType = ''Mutation'',
      call_operationResultType = ''UpdateCityMutation'',
      call_operationVariablesType = ''UpdateCityMutationVariables'', call_hasRequiredVars = True\<rparr>"


section \<open>Key derivation\<close>

lemma truthy_array: "truthy (JArr args)"
  by simp

lemma cacheKey_generateCacheKey: "cacheKey r args = generateCacheKey r [JArr args]"
  by (simp add: cacheKey_def)

lemma toCacheKey_generated_one_argument: "toCacheKey_generated [a] = Inr []"
  by (simp add: toCacheKey_generated_def param_def js_or_def)

lemma cacheKey_generated: "cacheKey (generated_repository h) args = Inr []"
  by (simp add: cacheKey_generateCacheKey generateCacheKey_def generated_repository_def
      toCacheKey_generated_one_argument)


section \<open>One call of \<open>read\<close>, one settlement\<close>

lemma cache_get_own: "c k = Some v \<Longrightarrow> cache_get c k = Value v"
  by (simp add: cache_get_def)

lemma read_hit:
  "cacheKey r args = Inr k \<Longrightarrow> cache_get (cache s) k \<noteq> Value JUndefined \<Longrightarrow>
   read r s args = (Returned (cache_get (cache s) k), s)"
  by (simp add: read_def)

lemma read_miss:
  "cacheKey r args = Inr k \<Longrightarrow> cache_get (cache s) k = Value JUndefined \<Longrightarrow>
   read r s args =
     (Suspended (length (fetched s)),
      s\<lparr>fetched := fetched s @ [args], pending := pending s @ [(length (fetched s), k)]\<rparr>)"
  by (simp add: read_def)

lemma read_miss_fst:
  "cacheKey r args = Inr k \<Longrightarrow> cache_get (cache s) k = Value JUndefined \<Longrightarrow>
   fst (read r s args) = Suspended (length (fetched s)) \<and>
   fetched (snd (read r s args)) = fetched s @ [args]"
  by (simp add: read_miss)

lemma read_threw: "cacheKey r args = Inl e \<Longrightarrow> read r s args = (Threw e, s)"
  by (simp add: read_def)

lemma cache_read: "cache (snd (read r s args)) = cache s"
  by (simp add: read_def split: sum.splits)

lemma cache_reject: "cache (reject s p) = cache s"
  by (simp add: reject_def split: option.splits)

lemma fetched_reject: "fetched (reject s p) = fetched s"
  by (simp add: reject_def split: option.splits)

lemma fetched_resolve: "fetched (resolve s p v) = fetched s"
  by (simp add: resolve_def split: option.splits)

lemma fetched_read: "length (fetched s) \<le> length (fetched (snd (read r s args)))"
  by (simp add: read_def split: sum.splits)

lemma cache_resolve:
  "map_of (pending s) p = Some k \<Longrightarrow> cache (resolve s p v) = (cache s)(k \<mapsto> v)"
  by (simp add: resolve_def)

lemma cache_resolve_other:
  "map_of (pending s) p \<noteq> Some k \<Longrightarrow> cache (resolve s p v) k = cache s k"
  by (auto simp: resolve_def split: option.splits)

lemma resolve_not_pending: "map_of (pending s) p = None \<Longrightarrow> resolve s p v = s"
  by (simp add: resolve_def)

lemma pending_key_in_flight: "map_of (pending s) p = Some k \<Longrightarrow> in_flight s k"
proof -
  assume "map_of (pending s) p = Some k"
  then have "(p, k) \<in> set (pending s)" by (rule map_of_SomeD)
  then have "k \<in> snd ` set (pending s)" by force
  then show ?thesis by (simp add: in_flight_def)
qed


section \<open>Histories of events\<close>

lemma run_Nil: "run r s [] = s"
  by (simp add: run_def)

lemma run_Cons: "run r s (e # evs) = run r (step r s e) evs"
  by (simp add: run_def)

lemma run_append: "run r s (evs @ evs') = run r (run r s evs) evs'"
  by (simp add: run_def)

lemma run_snoc: "run r s (evs @ [e]) = step r (run r s evs) e"
  by (simp add: run_def)

lemma fetched_step: "length (fetched s) \<le> length (fetched (step r s e))"
  by (cases e) (simp_all add: fetched_read fetched_resolve fetched_reject)

lemma fetched_run: "length (fetched s) \<le> length (fetched (run r s evs))"
proof (induction evs arbitrary: s)
  case Nil
  show ?case by (simp add: run_Nil)
next
  case (Cons e evs)
  have "length (fetched s) \<le> length (fetched (step r s e))" by (rule fetched_step)
  also have "\<dots> \<le> length (fetched (run r (step r s e) evs))" by (rule Cons.IH)
  finally show ?case by (simp add: run_Cons)
qed

lemma dom_cache_step: "dom (cache s) \<subseteq> dom (cache (step r s e))"
proof (cases e)
  case (Read args)
  then show ?thesis by (simp add: cache_read)
next
  case (Resolve p v)
  then show ?thesis by (auto simp: resolve_def split: option.splits)
next
  case (Reject p)
  then show ?thesis by (simp add: cache_reject)
qed

lemma dom_cache_run: "dom (cache s) \<subseteq> dom (cache (run r s evs))"
proof (induction evs arbitrary: s)
  case Nil
  show ?case by (simp add: run_Nil)
next
  case (Cons e evs)
  have "dom (cache s) \<subseteq> dom (cache (step r s e))" by (rule dom_cache_step)
  also have "\<dots> \<subseteq> dom (cache (run r (step r s e) evs))" by (rule Cons.IH)
  finally show ?case by (simp add: run_Cons)
qed

text \<open>
  The entry of a key is the value of the fetch for that key that resolved last; it is as
  it was while none resolves.
\<close>

lemma cache_run:
  "cache (run r s evs) k =
     (if resolutions r s k evs = [] then cache s k else Some (last (resolutions r s k evs)))"
proof (induction evs arbitrary: s)
  case Nil
  show ?case by (simp add: run_Nil)
next
  case (Cons e evs)
  show ?case
  proof (cases e)
    case (Read args)
    with Cons.IH [of "step r s e"] show ?thesis by (simp add: run_Cons cache_read)
  next
    case (Reject p)
    with Cons.IH [of "step r s e"] show ?thesis by (simp add: run_Cons cache_reject)
  next
    case (Resolve p v)
    show ?thesis
    proof (cases "map_of (pending s) p = Some k")
      case True
      with Resolve Cons.IH [of "step r s e"] show ?thesis
        by (simp add: run_Cons cache_resolve)
    next
      case False
      with Resolve Cons.IH [of "step r s e"] show ?thesis
        by (simp add: run_Cons cache_resolve_other)
    qed
  qed
qed

text \<open>A settled key stays settled: \<open>read\<close> starts no fetch for it, so none resolves.\<close>

lemma settled_read: "settled s k v \<Longrightarrow> settled (snd (read r s args)) k v"
proof (cases "cacheKey r args")
  case (Inl e)
  assume "settled s k v"
  with Inl show ?thesis by (simp add: read_threw)
next
  case (Inr k')
  assume st: "settled s k v"
  show ?thesis
  proof (cases "cache_get (cache s) k' = Value JUndefined")
    case False
    with Inr st show ?thesis by (simp add: read_hit)
  next
    case True
    from st have "cache_get (cache s) k = Value v" "v \<noteq> JUndefined"
      by (simp_all add: settled_def cache_get_own)
    with True have "k' \<noteq> k" by auto
    with Inr True st show ?thesis
      by (auto simp: read_miss settled_def in_flight_def)
  qed
qed

lemma settled_resolve: "settled s k v \<Longrightarrow> settled (resolve s p w) k v"
proof (cases "map_of (pending s) p")
  case None
  assume "settled s k v"
  with None show ?thesis by (simp add: resolve_not_pending)
next
  case (Some k')
  assume st: "settled s k v"
  from Some have "in_flight s k'" by (rule pending_key_in_flight)
  with st have "k' \<noteq> k" by (auto simp: settled_def)
  with Some st show ?thesis
    by (auto simp: resolve_def settled_def in_flight_def)
qed

lemma settled_reject: "settled s k v \<Longrightarrow> settled (reject s p) k v"
  by (auto simp: reject_def settled_def in_flight_def split: option.splits)

lemma settled_step: "settled s k v \<Longrightarrow> settled (step r s e) k v"
  by (cases e) (simp_all add: settled_read settled_resolve settled_reject)

lemma settled_no_resolutions: "settled s k v \<Longrightarrow> resolutions r s k evs = []"
proof (induction evs arbitrary: s)
  case Nil
  show ?case by simp
next
  case (Cons e evs)
  from Cons.prems have next_settled: "settled (step r s e) k v" by (rule settled_step)
  show ?case
  proof (cases e)
    case (Read args)
    with Cons.IH [OF next_settled] show ?thesis by simp
  next
    case (Reject p)
    with Cons.IH [OF next_settled] show ?thesis by simp
  next
    case (Resolve p w)
    have "map_of (pending s) p \<noteq> Some k"
    proof
      assume "map_of (pending s) p = Some k"
      then have "in_flight s k" by (rule pending_key_in_flight)
      with Cons.prems show False by (simp add: settled_def)
    qed
    with Resolve Cons.IH [OF next_settled] show ?thesis by simp
  qed
qed

text \<open>
  While the key is absent and no fetch for it resolves, every call of \<open>read\<close> for it calls
  the fetcher.
\<close>

lemma upt_first: "[n ..< Suc (n + m)] = n # [Suc n ..< Suc (n + m)]"
  by (simp add: upt_conv_Cons del: upt_Suc)

lemma unresolved_reads:
  "cache_get (cache s) k = Value JUndefined \<Longrightarrow> list_all (reads_key r k) evs \<Longrightarrow>
   resolutions r s k evs = [] \<Longrightarrow>
   outcomes r s evs = map Suspended [length (fetched s) ..< length (fetched s) + length (reads evs)]
   \<and> fetched (run r s evs) = fetched s @ reads evs"
proof (induction evs arbitrary: s)
  case Nil
  show ?case by (simp add: run_Nil)
next
  case (Cons e evs)
  show ?case
  proof (cases e)
    case (Read args)
    with Cons.prems have key: "cacheKey r args = Inr k" by simp
    let ?s = "s\<lparr>fetched := fetched s @ [args], pending := pending s @ [(length (fetched s), k)]\<rparr>"
    from key Cons.prems(1) have rd: "read r s args = (Suspended (length (fetched s)), ?s)"
      by (rule read_miss)
    have "outcomes r ?s evs =
        map Suspended [length (fetched ?s) ..< length (fetched ?s) + length (reads evs)]
       \<and> fetched (run r ?s evs) = fetched ?s @ reads evs"
      using Cons.prems Read rd by (intro Cons.IH) simp_all
    with Read rd show ?thesis by (simp add: run_Cons upt_first del: upt_Suc)
  next
    case (Reject p)
    have "outcomes r (reject s p) evs =
        map Suspended [length (fetched (reject s p)) ..<
                       length (fetched (reject s p)) + length (reads evs)]
       \<and> fetched (run r (reject s p) evs) = fetched (reject s p) @ reads evs"
      using Cons.prems Reject by (intro Cons.IH) (simp_all add: cache_reject)
    with Reject show ?thesis by (simp add: run_Cons fetched_reject)
  next
    case (Resolve p v)
    with Cons.prems have other: "map_of (pending s) p \<noteq> Some k" by (auto split: if_splits)
    then have same: "cache (resolve s p v) k = cache s k" by (rule cache_resolve_other)
    have "cache_get (cache (resolve s p v)) k = Value JUndefined"
      using Cons.prems(1) same by (simp add: cache_get_def)
    then have "outcomes r (resolve s p v) evs =
        map Suspended [length (fetched (resolve s p v)) ..<
                       length (fetched (resolve s p v)) + length (reads evs)]
       \<and> fetched (run r (resolve s p v) evs) = fetched (resolve s p v) @ reads evs"
      using Cons.prems Resolve other by (intro Cons.IH) simp_all
    with Resolve show ?thesis by (simp add: run_Cons fetched_resolve)
  qed
qed

text \<open>Keys: what is stored or in flight is a key that \<open>read\<close> has derived.\<close>

lemma keys_step:
  assumes "\<And>args k. cacheKey r args = Inr k \<Longrightarrow> k \<in> K"
    and "dom (cache s) \<subseteq> K" and "snd ` set (pending s) \<subseteq> K"
  shows "dom (cache (step r s e)) \<subseteq> K \<and> snd ` set (pending (step r s e)) \<subseteq> K"
proof (cases e)
  case (Read args)
  show ?thesis
  proof (cases "cacheKey r args")
    case (Inl err)
    with Read assms(2,3) show ?thesis by (simp add: read_threw)
  next
    case (Inr k)
    then have "k \<in> K" by (rule assms(1))
    with Read Inr assms(2,3) show ?thesis by (auto simp: read_def)
  qed
next
  case (Resolve p v)
  show ?thesis
  proof (cases "map_of (pending s) p")
    case None
    with Resolve assms(2,3) show ?thesis by (simp add: resolve_not_pending)
  next
    case (Some k)
    then have "in_flight s k" by (rule pending_key_in_flight)
    with assms(3) have "k \<in> K" by (auto simp: in_flight_def)
    with Resolve Some assms(2,3) show ?thesis by (auto simp: resolve_def)
  qed
next
  case (Reject p)
  with assms(2,3) show ?thesis by (auto simp: reject_def split: option.splits)
qed

lemma keys_run:
  assumes "\<And>args k. cacheKey r args = Inr k \<Longrightarrow> k \<in> K"
  shows "dom (cache s) \<subseteq> K \<and> snd ` set (pending s) \<subseteq> K \<Longrightarrow>
    dom (cache (run r s evs)) \<subseteq> K \<and> snd ` set (pending (run r s evs)) \<subseteq> K"
proof (induction evs arbitrary: s)
  case Nil
  then show ?case by (simp add: run_Nil)
next
  case (Cons e evs)
  from Cons.prems have "dom (cache (step r s e)) \<subseteq> K \<and> snd ` set (pending (step r s e)) \<subseteq> K"
    using assms keys_step [of r K s e] by blast
  then show ?case unfolding run_Cons by (rule Cons.IH)
qed


section \<open>Names the cache object inherits\<close>

text \<open>
  A fetch starts only for a key whose property read yields \<open>undefined\<close>, and a name of
  \<open>Object.prototype\<close> never does. So no handler ever assigns to such a name (to
  \<open>__proto__\<close> least of all, whose assignment would not create a property), and the
  assignment \<open>cache[cacheKey] = value\<close> is the update of an own property that \<open>resolve\<close>
  makes it. For such a key \<open>read\<close> returns the inherited member and never fetches.
\<close>

lemma absent_until_resolved:
  "k \<notin> set object_prototype_names \<Longrightarrow> resolutions r fresh k evs = [] \<Longrightarrow>
   cache_get (cache (run r fresh evs)) k = Value JUndefined"
proof -
  assume own: "k \<notin> set object_prototype_names" and quiet: "resolutions r fresh k evs = []"
  from quiet have "cache (run r fresh evs) k = cache fresh k" by (simp add: cache_run)
  then have "cache (run r fresh evs) k = None" by (simp add: fresh_def)
  with own show ?thesis by (simp add: cache_get_def)
qed

lemma own_names_iff:
  "own_names s \<longleftrightarrow>
     (\<forall>k \<in> set object_prototype_names. cache s k = None \<and> k \<notin> snd ` set (pending s))"
  by (simp add: own_names_def list_all_iff in_flight_def)

lemma own_names_step: "own_names s \<Longrightarrow> own_names (step r s e)"
proof (cases e)
  case (Read args)
  assume inv: "own_names s"
  show ?thesis
  proof (cases "cacheKey r args")
    case (Inl err)
    with Read inv show ?thesis by (simp add: read_threw)
  next
    case (Inr k)
    show ?thesis
    proof (cases "cache_get (cache s) k = Value JUndefined")
      case False
      with Read Inr inv show ?thesis by (simp add: read_hit)
    next
      case True
      have "k \<notin> set object_prototype_names"
      proof
        assume "k \<in> set object_prototype_names"
        with inv have "cache_get (cache s) k = Builtin k"
          by (simp add: own_names_iff cache_get_def)
        with True show False by simp
      qed
      with Read Inr True inv show ?thesis by (auto simp: read_miss own_names_iff)
    qed
  qed
next
  case (Resolve p v)
  assume inv: "own_names s"
  show ?thesis
  proof (cases "map_of (pending s) p")
    case None
    with Resolve inv show ?thesis by (simp add: resolve_not_pending)
  next
    case (Some k)
    then have "in_flight s k" by (rule pending_key_in_flight)
    with inv have "k \<notin> set object_prototype_names" by (auto simp: own_names_iff in_flight_def)
    with Resolve Some inv show ?thesis by (auto simp: resolve_def own_names_iff)
  qed
next
  case (Reject p)
  assume "own_names s"
  with Reject show ?thesis by (auto simp: reject_def own_names_iff split: option.splits)
qed

lemma own_names_fresh: "own_names fresh"
  by (simp add: own_names_iff fresh_def)

lemma own_names_run: "own_names s \<Longrightarrow> own_names (run r s evs)"
  by (induction evs arbitrary: s) (simp_all add: run_Nil run_Cons own_names_step)

lemma inherited_name_never_fetched:
  "k \<in> set object_prototype_names \<Longrightarrow> cacheKey r args = Inr k \<Longrightarrow>
   read r (run r fresh evs) args = (Returned (Builtin k), run r fresh evs)"
proof -
  assume k: "k \<in> set object_prototype_names" and key: "cacheKey r args = Inr k"
  have "own_names (run r fresh evs)" by (rule own_names_run) (rule own_names_fresh)
  with k have "cache_get (cache (run r fresh evs)) k = Builtin k"
    by (simp add: own_names_iff cache_get_def)
  with key show ?thesis by (simp add: read_def)
qed



section \<open>The read-through cache\<close>

text \<open>What it takes to run the repository of the examples on given events.\<close>

lemmas city_simps =
  run_def read_def resolve_def reject_def fresh_def cache_get_def object_prototype_names_def
  cacheKey_def generateCacheKey_def constant_key_def param_def in_flight_def
  city_repository_def first_argument_key_def

text \<open>
  Claim C1, as amended. Let a fetch for the key \<open>k\<close> be in flight in a repository with any
  history \<open>evs0\<close>, and let it resolve with a value \<open>v\<close> other than \<open>undefined\<close>. Then
  \<open>v\<close> is stored under \<open>k\<close>; and after any further events \<open>evs\<close> during which no fetch
  for \<open>k\<close> resolves with \<open>undefined\<close>, a call of \<open>read\<close> whose arguments derive \<open>k\<close>
  returns the value stored under \<open>k\<close>, which is that of the fetch for \<open>k\<close> that resolved
  last (\<open>v\<close> itself when no other did), and leaves the state as it is: the fetcher is
  not called.
\<close>

theorem cache_hit_after_resolution:
  "map_of (pending (run r fresh evs0)) p = Some k \<Longrightarrow>
   v \<noteq> JUndefined \<Longrightarrow>
   cacheKey r args = Inr k \<Longrightarrow>
   JUndefined \<notin> set (resolutions r (run r fresh (evs0 @ [Resolve p v])) k evs) \<Longrightarrow>
   cache (run r fresh (evs0 @ [Resolve p v])) k = Some v
   \<and> cache (run r fresh (evs0 @ Resolve p v # evs)) k
        = Some (last (v # resolutions r (run r fresh (evs0 @ [Resolve p v])) k evs))
   \<and> read r (run r fresh (evs0 @ Resolve p v # evs)) args
        = (Returned (Value (last (v # resolutions r (run r fresh (evs0 @ [Resolve p v])) k evs))),
           run r fresh (evs0 @ Resolve p v # evs))"
proof -
  let ?s = "run r fresh evs0"
  let ?s1 = "run r fresh (evs0 @ [Resolve p v])"
  let ?s2 = "run r fresh (evs0 @ Resolve p v # evs)"
  let ?w = "last (v # resolutions r ?s1 k evs)"
  assume fetch: "map_of (pending ?s) p = Some k" and v: "v \<noteq> JUndefined"
    and key: "cacheKey r args = Inr k"
    and defined: "JUndefined \<notin> set (resolutions r ?s1 k evs)"
  have s1: "?s1 = resolve ?s p v" by (simp add: run_snoc)
  with fetch have stored: "cache ?s1 k = Some v" by (simp add: cache_resolve)
  have s2: "?s2 = run r ?s1 evs" by (simp add: run_append run_Cons run_Nil)
  with stored have now: "cache ?s2 k = Some ?w" by (simp add: cache_run)
  have "?w \<in> set (v # resolutions r ?s1 k evs)" by (rule last_in_set) simp
  with v defined have "?w \<noteq> JUndefined" by auto
  with now have "cache_get (cache ?s2) k = Value ?w" "cache_get (cache ?s2) k \<noteq> Value JUndefined"
    by (simp_all add: cache_get_own)
  with key have "read r ?s2 args = (Returned (Value ?w), ?s2)" by (simp add: read_def)
  with stored now show ?thesis by simp
qed

text \<open>
  An instance: Melbourne's fetch resolves with \<open>sunny\<close>; Sydney is read and resolves with
  \<open>undefined\<close>; a read of Melbourne then returns \<open>sunny\<close>, and the fetcher has been
  called twice in all.
\<close>

theorem cache_hit_after_resolution_witness:
  "map_of (pending (run city_repository fresh [Read [JStr ''melbourne'']])) 0 = Some ''melbourne''
   \<and> JStr ''sunny'' \<noteq> JUndefined
   \<and> cacheKey city_repository [JStr ''melbourne''] = Inr ''melbourne''
   \<and> JUndefined \<notin> set (resolutions city_repository
         (run city_repository fresh ([Read [JStr ''melbourne'']] @ [Resolve 0 (JStr ''sunny'')]))
         ''melbourne'' [Read [JStr ''sydney''], Resolve 1 JUndefined, Read [JStr ''melbourne'']])
   \<and> fst (read city_repository
         (run city_repository fresh ([Read [JStr ''melbourne'']] @ Resolve 0 (JStr ''sunny'') #
            [Read [JStr ''sydney''], Resolve 1 JUndefined, Read [JStr ''melbourne'']]))
         [JStr ''melbourne'']) = Returned (Value (JStr ''sunny''))
   \<and> fetched (snd (read city_repository
         (run city_repository fresh ([Read [JStr ''melbourne'']] @ Resolve 0 (JStr ''sunny'') #
            [Read [JStr ''sydney''], Resolve 1 JUndefined, Read [JStr ''melbourne'']]))
         [JStr ''melbourne''])) = [[JStr ''melbourne''], [JStr ''sydney'']]"
proof -
  let ?evs = "[Read [JStr ''sydney''], Resolve 1 JUndefined, Read [JStr ''melbourne'']]"
  have fetch:
    "map_of (pending (run city_repository fresh [Read [JStr ''melbourne'']])) 0 = Some ''melbourne''"
    by (simp add: city_simps)
  have v: "JStr ''sunny'' \<noteq> JUndefined" by simp
  have key: "cacheKey city_repository [JStr ''melbourne''] = Inr ''melbourne''"
    by (simp add: city_simps)
  have res: "resolutions city_repository
         (run city_repository fresh ([Read [JStr ''melbourne'']] @ [Resolve 0 (JStr ''sunny'')]))
         ''melbourne'' ?evs = []"
    by (simp add: city_simps)
  then have defined: "JUndefined \<notin> set (resolutions city_repository
         (run city_repository fresh ([Read [JStr ''melbourne'']] @ [Resolve 0 (JStr ''sunny'')]))
         ''melbourne'' ?evs)" by simp
  have log: "fetched (run city_repository fresh
         ([Read [JStr ''melbourne'']] @ Resolve 0 (JStr ''sunny'') # ?evs))
      = [[JStr ''melbourne''], [JStr ''sydney'']]"
    by (simp add: city_simps)
  from cache_hit_after_resolution [OF fetch v key defined] fetch key defined res log
  show ?thesis by simp
qed

text \<open>
  The claim as it stands fails: Melbourne's fetch resolves with \<open>undefined\<close>, the value is
  stored, and the next read of Melbourne suspends and calls the fetcher a second time.
\<close>

theorem cache_hit_after_resolution_counterexample:
  "cache (run city_repository fresh [Read [JStr ''melbourne''], Resolve 0 JUndefined]) ''melbourne''
     = Some JUndefined
   \<and> fst (read city_repository
        (run city_repository fresh [Read [JStr ''melbourne''], Resolve 0 JUndefined])
        [JStr ''melbourne'']) = Suspended 1
   \<and> fetched (snd (read city_repository
        (run city_repository fresh [Read [JStr ''melbourne''], Resolve 0 JUndefined])
        [JStr ''melbourne''])) = [[JStr ''melbourne''], [JStr ''melbourne'']]"
  by (simp add: city_simps)

text \<open>
  No de-duplication of fetches in flight, for the keys that read as absent. In a repository
  with any history \<open>evs0\<close>, let the key \<open>k\<close> be absent: the
  property read \<open>cache[k]\<close> yields \<open>undefined\<close> (as it does, by
  \<open>absent_until_resolved\<close>, for every key that \<open>Object.prototype\<close> does not name, as
  long as no fetch for it has resolved). Let events \<open>evs\<close> follow among which
  there are \<open>N\<close> calls of \<open>read\<close>, all deriving \<open>k\<close>, and during which no fetch for
  \<open>k\<close> resolves (fetches may reject, fetches for other keys may resolve). Then every one
  of the \<open>N\<close> calls suspends on a fetch of its own, and the fetcher is called exactly
  \<open>N\<close> times, once with the arguments of each call.
\<close>

theorem no_in_flight_deduplication:
  "cache_get (cache (run r fresh evs0)) k = Value JUndefined \<Longrightarrow>
   list_all (reads_key r k) evs \<Longrightarrow>
   resolutions r (run r fresh evs0) k evs = [] \<Longrightarrow>
   length (reads evs) = N \<Longrightarrow>
   outcomes r (run r fresh evs0) evs =
     map Suspended [length (fetched (run r fresh evs0)) ..< length (fetched (run r fresh evs0)) + N]
   \<and> fetched (run r fresh (evs0 @ evs)) = fetched (run r fresh evs0) @ reads evs
   \<and> length (fetched (run r fresh (evs0 @ evs))) = length (fetched (run r fresh evs0)) + N"
  using unresolved_reads [of "run r fresh evs0" k r evs] by (simp add: run_append)

text \<open>
  An instance: after Sydney has been read and resolved, Melbourne is read three times, the
  second fetch rejecting in between; the three reads suspend on the fetches 1, 2 and 3.
\<close>

theorem no_in_flight_deduplication_witness:
  "cache_get (cache (run city_repository fresh [Read [JStr ''sydney''], Resolve 0 (JStr ''rain'')]))
       ''melbourne'' = Value JUndefined
   \<and> list_all (reads_key city_repository ''melbourne'')
        [Read [JStr ''melbourne''], Read [JStr ''melbourne''], Reject 2, Read [JStr ''melbourne'']]
   \<and> resolutions city_repository
        (run city_repository fresh [Read [JStr ''sydney''], Resolve 0 (JStr ''rain'')]) ''melbourne''
        [Read [JStr ''melbourne''], Read [JStr ''melbourne''], Reject 2, Read [JStr ''melbourne'']] = []
   \<and> outcomes city_repository
        (run city_repository fresh [Read [JStr ''sydney''], Resolve 0 (JStr ''rain'')])
        [Read [JStr ''melbourne''], Read [JStr ''melbourne''], Reject 2, Read [JStr ''melbourne'']]
        = [Suspended 1, Suspended 2, Suspended 3]
   \<and> length (fetched (run city_repository fresh
        ([Read [JStr ''sydney''], Resolve 0 (JStr ''rain'')] @
         [Read [JStr ''melbourne''], Read [JStr ''melbourne''], Reject 2, Read [JStr ''melbourne'']])))
        = 4"
proof -
  let ?before = "[Read [JStr ''sydney''], Resolve 0 (JStr ''rain'')]"
  let ?evs = "[Read [JStr ''melbourne''], Read [JStr ''melbourne''], Reject 2, Read [JStr ''melbourne'']]"
  have absent: "cache_get (cache (run city_repository fresh ?before)) ''melbourne'' = Value JUndefined"
    by (simp add: city_simps)
  have keys: "list_all (reads_key city_repository ''melbourne'') ?evs"
    by (simp add: city_simps)
  have quiet: "resolutions city_repository (run city_repository fresh ?before) ''melbourne'' ?evs = []"
    by (simp add: city_simps)
  have count: "length (reads ?evs) = 3" by simp
  have start: "length (fetched (run city_repository fresh ?before)) = 1"
    by (simp add: city_simps)
  have interval: "[1 ..< 1 + 3] = [1, 2, 3::nat]" by (simp add: upt_rec)
  from no_in_flight_deduplication [OF absent keys quiet count] absent keys quiet start interval
  show ?thesis by simp
qed

text \<open>
  Claim C3, at a key that the cache object inherits. A caller creates a repository whose key
  is the first argument of \<open>read\<close> and reads \<open>constructor\<close>. The property read
  \<open>cache['constructor']\<close> yields the member of \<open>Object.prototype\<close>, which is not
  \<open>undefined\<close>: after every history \<open>read\<close> returns that member and leaves the state
  as it is. So three reads of the key, before any fetch for it has resolved, return three
  times and the fetcher is not called at all, where the claim has it called three times.
\<close>

theorem inherited_key_is_never_fetched:
  "cacheKey city_repository [JStr ''constructor''] = Inr ''constructor''
   \<and> read city_repository (run city_repository fresh evs0) [JStr ''constructor'']
        = (Returned (Builtin ''constructor''), run city_repository fresh evs0)
   \<and> resolutions city_repository fresh ''constructor''
        [Read [JStr ''constructor''], Read [JStr ''constructor''], Read [JStr ''constructor'']] = []
   \<and> length (reads
        [Read [JStr ''constructor''], Read [JStr ''constructor''], Read [JStr ''constructor'']]) = 3
   \<and> outcomes city_repository fresh
        [Read [JStr ''constructor''], Read [JStr ''constructor''], Read [JStr ''constructor'']]
        = [Returned (Builtin ''constructor''), Returned (Builtin ''constructor''),
           Returned (Builtin ''constructor'')]
   \<and> fetched (run city_repository fresh
        [Read [JStr ''constructor''], Read [JStr ''constructor''], Read [JStr ''constructor'']]) = []"
proof -
  have key: "cacheKey city_repository [JStr ''constructor''] = Inr ''constructor''"
    by (simp add: city_simps)
  have inherited: "''constructor'' \<in> set object_prototype_names"
    by (simp add: object_prototype_names_def)
  from inherited key
  have always: "read city_repository (run city_repository fresh evs0) [JStr ''constructor'']
        = (Returned (Builtin ''constructor''), run city_repository fresh evs0)"
    by (rule inherited_name_never_fetched)
  have three: "resolutions city_repository fresh ''constructor''
        [Read [JStr ''constructor''], Read [JStr ''constructor''], Read [JStr ''constructor'']] = []
   \<and> outcomes city_repository fresh
        [Read [JStr ''constructor''], Read [JStr ''constructor''], Read [JStr ''constructor'']]
        = [Returned (Builtin ''constructor''), Returned (Builtin ''constructor''),
           Returned (Builtin ''constructor'')]
   \<and> fetched (run city_repository fresh
        [Read [JStr ''constructor''], Read [JStr ''constructor''], Read [JStr ''constructor'']]) = []"
    by (simp add: city_simps)
  from key always three show ?thesis by simp
qed

text \<open>
  Claim C4. In a repository with any history \<open>evs0\<close>, let a call of \<open>read\<close> whose
  arguments derive the key \<open>k\<close> start the fetch \<open>p\<close>, and let that fetch reject, before or
  after other events during which no fetch for \<open>k\<close> resolves. The rejection stores nothing:
  it leaves the cache as it is. The entry of \<open>k\<close> is as it was before the first call,
  \<open>k\<close> is absent, and a further call of \<open>read\<close> with these arguments suspends on a new
  fetch, for which the fetcher is called with the arguments once more.
\<close>

theorem failure_is_not_cached:
  "read r (run r fresh evs0) args = (Suspended p, s1) \<Longrightarrow>
   cacheKey r args = Inr k \<Longrightarrow>
   resolutions r s1 k (evs1 @ Reject p # evs2) = [] \<Longrightarrow>
   cache (reject (run r s1 evs1) p) = cache (run r s1 evs1)
   \<and> cache (run r s1 (evs1 @ Reject p # evs2)) k = cache (run r fresh evs0) k
   \<and> cache_get (cache (run r s1 (evs1 @ Reject p # evs2))) k = Value JUndefined
   \<and> fst (read r (run r s1 (evs1 @ Reject p # evs2)) args)
        = Suspended (length (fetched (run r s1 (evs1 @ Reject p # evs2))))
   \<and> fetched (snd (read r (run r s1 (evs1 @ Reject p # evs2)) args))
        = fetched (run r s1 (evs1 @ Reject p # evs2)) @ [args]
   \<and> p < length (fetched (run r s1 (evs1 @ Reject p # evs2)))"
proof -
  let ?s = "run r fresh evs0" and ?evs = "evs1 @ Reject p # evs2"
  assume rd: "read r ?s args = (Suspended p, s1)" and key: "cacheKey r args = Inr k"
    and quiet: "resolutions r s1 k ?evs = []"
  from rd key have absent: "cache_get (cache ?s) k = Value JUndefined"
    by (auto simp: read_def split: if_splits)
  from rd have "s1 = snd (read r ?s args)" by simp
  then have same: "cache s1 = cache ?s" by (simp add: cache_read)
  from rd key absent have p: "p = length (fetched ?s)" by (simp add: read_miss)
  from rd key absent have "fetched s1 = fetched ?s @ [args]" by (auto simp: read_miss)
  with p have "p < length (fetched s1)" by simp
  also have "\<dots> \<le> length (fetched (run r s1 ?evs))" by (rule fetched_run)
  finally have fresh_promise: "p < length (fetched (run r s1 ?evs))" .
  from quiet have kept: "cache (run r s1 ?evs) k = cache s1 k" by (simp add: cache_run)
  with same have kept': "cache (run r s1 ?evs) k = cache ?s k" by simp
  with absent have absent': "cache_get (cache (run r s1 ?evs)) k = Value JUndefined"
    by (simp add: cache_get_def)
  from key absent' have again:
    "fst (read r (run r s1 ?evs) args) = Suspended (length (fetched (run r s1 ?evs)))
     \<and> fetched (snd (read r (run r s1 ?evs) args)) = fetched (run r s1 ?evs) @ [args]"
    by (rule read_miss_fst)
  from kept' absent' again fresh_promise show ?thesis by (simp add: cache_reject)
qed

text \<open>
  An instance: Melbourne is read (fetch 0), Sydney is read (fetch 1), fetch 0 rejects,
  Sydney's fetch resolves; Melbourne is absent still, and a read of it suspends on fetch 2.
\<close>

theorem failure_is_not_cached_witness:
  "read city_repository (run city_repository fresh []) [JStr ''melbourne'']
     = (Suspended 0,
        \<lparr>cache = Map.empty, fetched = [[JStr ''melbourne'']], pending = [(0, ''melbourne'')]\<rparr>)
   \<and> cacheKey city_repository [JStr ''melbourne''] = Inr ''melbourne''
   \<and> resolutions city_repository
        \<lparr>cache = Map.empty, fetched = [[JStr ''melbourne'']], pending = [(0, ''melbourne'')]\<rparr>
        ''melbourne'' ([Read [JStr ''sydney'']] @ Reject 0 # [Resolve 1 (JStr ''rain'')]) = []
   \<and> cache_get (cache (run city_repository
        \<lparr>cache = Map.empty, fetched = [[JStr ''melbourne'']], pending = [(0, ''melbourne'')]\<rparr>
        ([Read [JStr ''sydney'']] @ Reject 0 # [Resolve 1 (JStr ''rain'')]))) ''melbourne''
        = Value JUndefined
   \<and> fst (read city_repository (run city_repository
        \<lparr>cache = Map.empty, fetched = [[JStr ''melbourne'']], pending = [(0, ''melbourne'')]\<rparr>
        ([Read [JStr ''sydney'']] @ Reject 0 # [Resolve 1 (JStr ''rain'')])) [JStr ''melbourne''])
        = Suspended 2"
proof -
  let ?args = "[JStr ''melbourne'']"
  let ?s1 = "\<lparr>cache = Map.empty, fetched = [?args], pending = [(0, ''melbourne'')]\<rparr>"
  let ?evs = "[Read [JStr ''sydney'']] @ Reject 0 # [Resolve 1 (JStr ''rain'')]"
  have rd: "read city_repository (run city_repository fresh []) ?args = (Suspended 0, ?s1)"
    by (simp add: city_simps)
  have key: "cacheKey city_repository ?args = Inr ''melbourne''"
    by (simp add: city_simps)
  have quiet: "resolutions city_repository ?s1 ''melbourne'' ?evs = []"
    by (simp add: city_simps)
  have count: "length (fetched (run city_repository ?s1 ?evs)) = 2"
    by (simp add: city_simps)
  from failure_is_not_cached [OF rd key quiet] rd key quiet count show ?thesis by simp
qed

text \<open>
  Claim C5, as amended. Let the key \<open>k\<close> be resolved, with the value \<open>v\<close>, in a
  repository with any history \<open>evs0\<close>. Then after any further events \<open>evs\<close>
  \<^item> \<open>k\<close> is present in the mapping still: no entry is ever removed;
  \<^item> \<open>k\<close> maps to \<open>v\<close> still if no fetch for \<open>k\<close> has resolved during \<open>evs\<close>;
  \<^item> \<open>k\<close> maps to \<open>v\<close> still, whatever the events, if \<open>v\<close> is not \<open>undefined\<close> and
    no fetch for \<open>k\<close> was in flight when the events began.
\<close>

theorem resolved_entry_persists:
  "cache (run r fresh evs0) k = Some v \<Longrightarrow>
   k \<in> dom (cache (run r fresh (evs0 @ evs)))
   \<and> (resolutions r (run r fresh evs0) k evs = [] \<longrightarrow> cache (run r fresh (evs0 @ evs)) k = Some v)
   \<and> (v \<noteq> JUndefined \<and> \<not> in_flight (run r fresh evs0) k
        \<longrightarrow> cache (run r fresh (evs0 @ evs)) k = Some v)"
proof -
  let ?s = "run r fresh evs0"
  assume stored: "cache ?s k = Some v"
  have "dom (cache ?s) \<subseteq> dom (cache (run r ?s evs))" by (rule dom_cache_run)
  with stored have present: "k \<in> dom (cache (run r fresh (evs0 @ evs)))"
    by (auto simp: run_append)
  have until: "resolutions r ?s k evs = [] \<longrightarrow> cache (run r fresh (evs0 @ evs)) k = Some v"
    using stored by (simp add: run_append cache_run)
  have forever:
    "v \<noteq> JUndefined \<and> \<not> in_flight ?s k \<longrightarrow> cache (run r fresh (evs0 @ evs)) k = Some v"
  proof
    assume "v \<noteq> JUndefined \<and> \<not> in_flight ?s k"
    with stored have "settled ?s k v" by (simp add: settled_def)
    then have "resolutions r ?s k evs = []" by (rule settled_no_resolutions)
    with until show "cache (run r fresh (evs0 @ evs)) k = Some v" by simp
  qed
  from present until forever show ?thesis by simp
qed

text \<open>
  An instance: Melbourne is resolved with \<open>sunny\<close> and nothing is in flight for it; it is
  read again, Sydney is read and resolves, a promise that is not pending is settled;
  Melbourne maps to \<open>sunny\<close> still.
\<close>

theorem resolved_entry_persists_witness:
  "cache (run city_repository fresh [Read [JStr ''melbourne''], Resolve 0 (JStr ''sunny'')])
      ''melbourne'' = Some (JStr ''sunny'')
   \<and> JStr ''sunny'' \<noteq> JUndefined
   \<and> \<not> in_flight (run city_repository fresh [Read [JStr ''melbourne''], Resolve 0 (JStr ''sunny'')])
        ''melbourne''
   \<and> resolutions city_repository
        (run city_repository fresh [Read [JStr ''melbourne''], Resolve 0 (JStr ''sunny'')])
        ''melbourne''
        [Read [JStr ''melbourne''], Read [JStr ''sydney''], Resolve 1 (JStr ''rain''),
         Resolve 0 (JStr ''storm''), Reject 7] = []
   \<and> ''melbourne'' \<in> dom (cache (run city_repository fresh
        ([Read [JStr ''melbourne''], Resolve 0 (JStr ''sunny'')] @
         [Read [JStr ''melbourne''], Read [JStr ''sydney''], Resolve 1 (JStr ''rain''),
          Resolve 0 (JStr ''storm''), Reject 7])))
   \<and> cache (run city_repository fresh
        ([Read [JStr ''melbourne''], Resolve 0 (JStr ''sunny'')] @
         [Read [JStr ''melbourne''], Read [JStr ''sydney''], Resolve 1 (JStr ''rain''),
          Resolve 0 (JStr ''storm''), Reject 7])) ''melbourne'' = Some (JStr ''sunny'')"
proof -
  let ?before = "[Read [JStr ''melbourne''], Resolve 0 (JStr ''sunny'')]"
  let ?evs = "[Read [JStr ''melbourne''], Read [JStr ''sydney''], Resolve 1 (JStr ''rain''),
         Resolve 0 (JStr ''storm''), Reject 7]"
  have stored: "cache (run city_repository fresh ?before) ''melbourne'' = Some (JStr ''sunny'')"
    by (simp add: city_simps)
  have v: "JStr ''sunny'' \<noteq> JUndefined" by simp
  have idle: "\<not> in_flight (run city_repository fresh ?before) ''melbourne''"
    by (simp add: city_simps)
  have quiet: "resolutions city_repository (run city_repository fresh ?before) ''melbourne'' ?evs = []"
    by (simp add: city_simps)
  from resolved_entry_persists [OF stored, of ?evs] stored v idle quiet show ?thesis by simp
qed

text \<open>
  The claim as it stands fails: two reads of Melbourne start two fetches; the first
  resolves with \<open>sunny\<close>, which is stored; the second resolves with \<open>rain\<close>, which
  overwrites it.
\<close>

theorem resolved_entry_persists_counterexample:
  "cache (run city_repository fresh
      [Read [JStr ''melbourne''], Read [JStr ''melbourne''], Resolve 0 (JStr ''sunny'')])
      ''melbourne'' = Some (JStr ''sunny'')
   \<and> cache (run city_repository fresh
      [Read [JStr ''melbourne''], Read [JStr ''melbourne''], Resolve 0 (JStr ''sunny''),
       Resolve 1 (JStr ''rain'')])
      ''melbourne'' = Some (JStr ''rain'')"
  by (simp add: city_simps)

text \<open>
  Claim C10. Let a fetch for the key \<open>k\<close> be in flight in a repository with any history
  \<open>evs0\<close>, and let it resolve with \<open>undefined\<close>. Then \<open>undefined\<close> is stored under
  \<open>k\<close>; and after any further events \<open>evs\<close> during which the fetches for \<open>k\<close> that
  resolve do so with \<open>undefined\<close>, the entry is \<open>undefined\<close> still and a call of \<open>read\<close>
  whose arguments derive \<open>k\<close> suspends on a new fetch, for which the fetcher is called
  again: the entry is never returned.
\<close>

theorem undefined_is_not_cached:
  "map_of (pending (run r fresh evs0)) p = Some k \<Longrightarrow>
   cacheKey r args = Inr k \<Longrightarrow>
   set (resolutions r (run r fresh (evs0 @ [Resolve p JUndefined])) k evs) \<subseteq> {JUndefined} \<Longrightarrow>
   cache (run r fresh (evs0 @ [Resolve p JUndefined])) k = Some JUndefined
   \<and> cache (run r fresh (evs0 @ Resolve p JUndefined # evs)) k = Some JUndefined
   \<and> fst (read r (run r fresh (evs0 @ Resolve p JUndefined # evs)) args)
        = Suspended (length (fetched (run r fresh (evs0 @ Resolve p JUndefined # evs))))
   \<and> fetched (snd (read r (run r fresh (evs0 @ Resolve p JUndefined # evs)) args))
        = fetched (run r fresh (evs0 @ Resolve p JUndefined # evs)) @ [args]"
proof -
  let ?s = "run r fresh evs0"
  let ?s1 = "run r fresh (evs0 @ [Resolve p JUndefined])"
  let ?s2 = "run r fresh (evs0 @ Resolve p JUndefined # evs)"
  assume fetch: "map_of (pending ?s) p = Some k" and key: "cacheKey r args = Inr k"
    and undef: "set (resolutions r ?s1 k evs) \<subseteq> {JUndefined}"
  have "?s1 = resolve ?s p JUndefined" by (simp add: run_snoc)
  with fetch have stored: "cache ?s1 k = Some JUndefined" by (simp add: cache_resolve)
  have s2: "?s2 = run r ?s1 evs" by (simp add: run_append run_Cons run_Nil)
  have now: "cache ?s2 k = Some JUndefined"
  proof (cases "resolutions r ?s1 k evs = []")
    case True
    with stored s2 show ?thesis by (simp add: cache_run)
  next
    case False
    then have "last (resolutions r ?s1 k evs) \<in> set (resolutions r ?s1 k evs)"
      by (rule last_in_set)
    with undef have "last (resolutions r ?s1 k evs) = JUndefined" by auto
    with False s2 show ?thesis by (simp add: cache_run)
  qed
  then have "cache_get (cache ?s2) k = Value JUndefined" by (simp add: cache_get_own)
  with key have "fst (read r ?s2 args) = Suspended (length (fetched ?s2))
     \<and> fetched (snd (read r ?s2 args)) = fetched ?s2 @ [args]"
    by (rule read_miss_fst)
  with stored now show ?thesis by simp
qed

text \<open>
  An instance: Melbourne's fetch resolves with \<open>undefined\<close>; it is read again (fetch 1),
  which resolves with \<open>undefined\<close> too, while Sydney resolves with \<open>rain\<close>; the next read
  of Melbourne suspends on fetch 3.
\<close>

theorem undefined_is_not_cached_witness:
  "map_of (pending (run city_repository fresh [Read [JStr ''melbourne'']])) 0 = Some ''melbourne''
   \<and> cacheKey city_repository [JStr ''melbourne''] = Inr ''melbourne''
   \<and> set (resolutions city_repository
        (run city_repository fresh ([Read [JStr ''melbourne'']] @ [Resolve 0 JUndefined]))
        ''melbourne''
        [Read [JStr ''melbourne''], Read [JStr ''sydney''], Resolve 2 (JStr ''rain''),
         Resolve 1 JUndefined]) \<subseteq> {JUndefined}
   \<and> cache (run city_repository fresh ([Read [JStr ''melbourne'']] @ Resolve 0 JUndefined #
        [Read [JStr ''melbourne''], Read [JStr ''sydney''], Resolve 2 (JStr ''rain''),
         Resolve 1 JUndefined])) ''melbourne'' = Some JUndefined
   \<and> fst (read city_repository
        (run city_repository fresh ([Read [JStr ''melbourne'']] @ Resolve 0 JUndefined #
          [Read [JStr ''melbourne''], Read [JStr ''sydney''], Resolve 2 (JStr ''rain''),
           Resolve 1 JUndefined])) [JStr ''melbourne'']) = Suspended 3"
proof -
  let ?evs = "[Read [JStr ''melbourne''], Read [JStr ''sydney''], Resolve 2 (JStr ''rain''),
         Resolve 1 JUndefined]"
  have fetch:
    "map_of (pending (run city_repository fresh [Read [JStr ''melbourne'']])) 0 = Some ''melbourne''"
    by (simp add: city_simps)
  have key: "cacheKey city_repository [JStr ''melbourne''] = Inr ''melbourne''"
    by (simp add: city_simps)
  have undef: "set (resolutions city_repository
        (run city_repository fresh ([Read [JStr ''melbourne'']] @ [Resolve 0 JUndefined]))
        ''melbourne'' ?evs) \<subseteq> {JUndefined}"
    by (simp add: city_simps)
  have count: "length (fetched (run city_repository fresh
        ([Read [JStr ''melbourne'']] @ Resolve 0 JUndefined # ?evs))) = 3"
    by (simp add: city_simps)
  from undefined_is_not_cached [OF fetch key undef] fetch key undef count show ?thesis by simp
qed


section \<open>Key derivation in a generated repository\<close>

text \<open>
  Claim C9. \<open>read\<close> calls the key function with the array of its arguments as the one
  argument. So the second parameter of the generated key function is \<open>undefined\<close>, the
  function returns the empty string whatever \<open>read\<close> is called with, and a generated
  repository derives the empty string as the key of every call; any two calls share their
  key, and the cache never holds an entry under another key.
\<close>

theorem generated_key_is_empty:
  "param [JArr args] 1 = JUndefined
   \<and> toCacheKey_generated [JArr args] = Inr []
   \<and> cacheKey (generated_repository h) args = Inr []
   \<and> cacheKey (generated_repository h) args = cacheKey (generated_repository h) args'
   \<and> dom (cache (run (generated_repository h) fresh evs)) \<subseteq> {[]}"
proof -
  have "dom (cache (run (generated_repository h) fresh evs)) \<subseteq> {[]}
      \<and> snd ` set (pending (run (generated_repository h) fresh evs)) \<subseteq> {[]}"
    by (rule keys_run) (simp_all add: cacheKey_generated fresh_def)
  then show ?thesis
    by (simp add: cacheKey_generated toCacheKey_generated_one_argument param_def)
qed

text \<open>
  Claim C2, at the call of the claim: a generated repository is read with a client and the
  options \<open>{ variables: { city: 'melbourne', country: 'au' } }\<close>. The key derived is the
  empty string, not \<open>melbourne-au\<close>. The generated key function does join the values of
  its second argument with \<open>-\<close>, and yields \<open>melbourne-au\<close> when it is called with a
  client and the variables object; but \<open>read\<close> passes it one argument, the array; and
  were the two arguments of \<open>read\<close> passed on, the second would be the options, whose one
  value is the variables object.
\<close>

theorem generated_key_ignores_variables:
  "cacheKey (generated_repository h) [some_client, weather_options] = Inr []
   \<and> toCacheKey_generated [JArr [some_client, weather_options]] = Inr []
   \<and> toCacheKey_generated [some_client, weather_options] = Inr ''[object Object]''
   \<and> toCacheKey_generated [some_client, weather_variables] = Inr ''melbourne-au''"
  by (simp add: cacheKey_generated toCacheKey_generated_def param_def js_or_def
      weather_options_def weather_variables_def some_client_def)

text \<open>
  Claim C8, in two parts. With no key function given, in either way of giving none, the key
  is the hash of the array of all arguments. With no arguments that array is empty, and an
  empty array is truthy: the key is the hash of the empty array, and the branch that yields
  \<open>default\<close> is never taken. For a hash that yields hexadecimal digits, as that of
  \<open>object-hash\<close> does, the key of the call without arguments is not \<open>default\<close>.
\<close>

theorem default_key_is_never_used:
  "cacheKey \<lparr>hash = h, options = None\<rparr> args = h [JArr args]
   \<and> cacheKey \<lparr>hash = h, options = Some \<lparr>toCacheKey = None\<rparr>\<rparr> args = h [JArr args]
   \<and> cacheKey \<lparr>hash = h, options = None\<rparr> [] = h [JArr []]
   \<and> cacheKey \<lparr>hash = constant_key ''0123456789abcdef0123456789abcdef01234567'', options = None\<rparr> []
       \<noteq> Inr ''default''"
  by (simp add: cacheKey_def generateCacheKey_def constant_key_def)


section \<open>Output validation\<close>

text \<open>
  Claim C7. \<open>validate\<close> fails exactly when \<open>disableChecks\<close> is not truthy and the
  extension of the output file is neither \<open>.ts\<close> nor \<open>.tsx\<close>; for a flag that is a
  boolean, exactly when the flag is false and the extension is neither; for a flag that is
  not given, exactly when the extension is neither. The only failure is the error about
  the extension. With the flag false, \<open>schema.py\<close> fails with that error; \<open>schema.tsx\<close>
  passes under every configuration.
\<close>

theorem validate_fails_iff:
  "((\<exists>e. validate config outputFile = Inl e) \<longleftrightarrow>
      \<not> truthy (disableChecks config) \<and> extname outputFile \<noteq> ''.ts'' \<and> extname outputFile \<noteq> ''.tsx'')
   \<and> ((\<exists>e. validate (config\<lparr>disableChecks := JBool b\<rparr>) outputFile = Inl e) \<longleftrightarrow>
      b \<noteq> True \<and> extname outputFile \<noteq> ''.ts'' \<and> extname outputFile \<noteq> ''.tsx'')
   \<and> ((\<exists>e. validate (config\<lparr>disableChecks := JUndefined\<rparr>) outputFile = Inl e) \<longleftrightarrow>
      extname outputFile \<noteq> ''.ts'' \<and> extname outputFile \<noteq> ''.tsx'')
   \<and> (validate config outputFile = Inr () \<or>
      validate config outputFile =
        Inl (Error ''The output file must be a typescript file ending with either .ts or .tsx''))
   \<and> validate (config\<lparr>disableChecks := JBool False\<rparr>) ''schema.py'' =
        Inl (Error ''The output file must be a typescript file ending with either .ts or .tsx'')
   \<and> validate config ''schema.tsx'' = Inr ()"
proof -
  have py: "extname ''schema.py'' = ''.py''" by (simp add: extname_def last_portion_def)
  have tsx: "extname ''schema.tsx'' = ''.tsx''" by (simp add: extname_def last_portion_def)
  show ?thesis by (simp add: validate_def validFileExtensions_def py tsx)
qed


section \<open>The generator\<close>

lemma text_lines_nonempty: "text_lines ([] # l # ls) \<noteq> []"
  by (simp add: text_lines_def nl_def)

lemma buildOperation_mutation:
  "buildOperation env this node documentVariableName ''Mutation'' operationResultType
     operationVariablesType hasRequiredVars = ([], this)"
  by (simp add: buildOperation_def)

lemma buildOperation_empty_iff:
  "fst (buildOperation env this node documentVariableName operationType operationResultType
     operationVariablesType hasRequiredVars) = [] \<longleftrightarrow> operationType = ''Mutation''"
  by (simp add: buildOperation_def Let_def text_lines_nonempty del: list.simps)

lemma weather_outputs:
  "fst (buildOperations default_naming new_visitor [get_weather, update_city]) =
     [fst (buildOperation default_naming new_visitor (call_node get_weather) ''GetWeatherDocument''
        ''Query'' ''GetWeatherQuery'' ''GetWeatherQueryVariables'' True), []]"
  by (simp add: get_weather_def update_city_def buildOperation_def Let_def split_def)

lemma weather_accessors:
  "occurrences ''export const use''
     (concat (fst (buildOperations default_naming new_visitor [get_weather, update_city]))) = 1"
  by code_simp

lemma weather_accessor_name:
  "occurrences ''export const useGetWeatherSuspenseQuery = (options''
     (concat (fst (buildOperations default_naming new_visitor [get_weather, update_city]))) = 1"
  by code_simp

lemma weather_repositories:
  "occurrences ''createRepository<''
     (concat (fst (buildOperations default_naming new_visitor [get_weather, update_city]))) = 1"
  by code_simp

lemma weather_names:
  "map name (queryNames (snd (buildOperations default_naming new_visitor [get_weather, update_city])))
     = [''GetWeatherQuery'']
   \<and> mutationNames (snd (buildOperations default_naming new_visitor [get_weather, update_city])) = []"
  by code_simp

text \<open>
  Claim C6. \<open>buildOperation\<close> returns the empty string exactly for an operation of the
  type \<open>Mutation\<close>, and records nothing for it. For the document with the query
  \<open>GetWeather\<close> and the mutation \<open>UpdateCity\<close> its outputs are the text for the query
  and the empty string; together they declare one accessor,
  \<open>useGetWeatherSuspenseQuery\<close>, and create one repository, and the one entry recorded
  is that of the query.
\<close>

theorem mutations_are_skipped:
  "(fst (buildOperation env this node documentVariableName operationType operationResultType
       operationVariablesType hasRequiredVars) = [] \<longleftrightarrow> operationType = ''Mutation'')
   \<and> buildOperation env this node documentVariableName ''Mutation'' operationResultType
       operationVariablesType hasRequiredVars = ([], this)
   \<and> fst (buildOperations default_naming new_visitor [get_weather, update_city]) =
       [fst (buildOperation default_naming new_visitor (call_node get_weather) ''GetWeatherDocument''
          ''Query'' ''GetWeatherQuery'' ''GetWeatherQueryVariables'' True), []]
   \<and> occurrences ''export const use''
       (concat (fst (buildOperations default_naming new_visitor [get_weather, update_city]))) = 1
   \<and> occurrences ''export const useGetWeatherSuspenseQuery = (options''
       (concat (fst (buildOperations default_naming new_visitor [get_weather, update_city]))) = 1
   \<and> occurrences ''createRepository<''
       (concat (fst (buildOperations default_naming new_visitor [get_weather, update_city]))) = 1
   \<and> map name (queryNames (snd (buildOperations default_naming new_visitor
       [get_weather, update_city]))) = [''GetWeatherQuery'']
   \<and> mutationNames (snd (buildOperations default_naming new_visitor [get_weather, update_city])) = []"
  by (intro conjI)
    (rule buildOperation_empty_iff buildOperation_mutation weather_outputs weather_accessors
       weather_accessor_name weather_repositories
       conjunct1 [OF weather_names] conjunct2 [OF weather_names])+

end
